theory Spec2Isabelle
  imports Complex_Main "HOL-Library.Multiset"
begin

section \<open>The data model: pandas frames as the transformer reads them\<close>

text \<open>
  The repository's core is \<^verbatim>\<open>CategoricalGrouper\<close> of \<^verbatim>\<open>column_parsing.py\<close>. It works on a
  \<^verbatim>\<open>pandas.DataFrame\<close>. Of a frame the code reads and writes: the length of its index
  (\<^verbatim>\<open>len(X)\<close>), the ordered column names, and per column the dtype (whether its name is
  \<^verbatim>\<open>'category'\<close>, and then the categories), and the cells. A missing cell (NaN) is
  \<open>None\<close>. The type of a cell value is a parameter \<open>'a\<close>.
\<close>

datatype 'a dtype = Category "'a list" | Other_dtype

record 'a series =
  dtype :: "'a dtype"
  cells :: "'a option list"

record 'a dataframe =
  index_len :: nat
  columns :: "(string \<times> 'a series) list"

text \<open>
  The exceptions the code raises, with their arguments. \<open>AssertionError\<close>,
  \<open>RuntimeError\<close> and \<open>ValueError\<close> carry the message, \<open>KeyError\<close> the key.
\<close>

datatype error =
    AssertionError string
  | RuntimeError string
  | ValueError string
  | KeyError string
  | IndexError

text \<open>
  Frequencies are Python floats. Rounding is not modelled: a finite float is an exact
  rational. The one special value that the code can meet is kept: \<open>0 / 0.0\<close> of numpy is
  \<open>NaN\<close>, adding to \<open>NaN\<close> gives \<open>NaN\<close>, and every comparison with \<open>NaN\<close> is false.
\<close>

datatype pyfloat = NaN | Fin rat

fun fadd :: "pyfloat \<Rightarrow> pyfloat \<Rightarrow> pyfloat" where
  "fadd (Fin a) (Fin b) = Fin (a + b)"
| "fadd _ _ = NaN"

fun flt :: "pyfloat \<Rightarrow> rat \<Rightarrow> bool" where
  "flt (Fin a) b = (a < b)"
| "flt NaN b = False"

text \<open>An argument that the docstring wants to be \<^verbatim>\<open>list or None\<close>; \<open>NonList\<close> is any
  other Python object.\<close>

datatype cols_arg = NoneArg | ListArg "string list" | NonList

text \<open>The instance: the constructor's parameters, and the two attributes that only
  \<^verbatim>\<open>fit\<close> sets, \<^verbatim>\<open>cat_cols_\<close> and \<^verbatim>\<open>imp_cats_\<close> (\<open>None\<close>: the attribute does not exist;
  a name cannot end with an underscore here).\<close>

record 'a grouper =
  "method" :: string
  percentile_thresh :: rat
  new_cat :: 'a
  include_cols :: cols_arg
  exclude_cols :: cols_arg
  cat_cols :: "string list option"
  imp_cats :: "(string \<rightharpoonup> 'a list) option"

definition init :: "string \<Rightarrow> rat \<Rightarrow> 'a \<Rightarrow> cols_arg \<Rightarrow> cols_arg \<Rightarrow> 'a grouper" where
  "init m t n inc exc =
     \<lparr>method = m, percentile_thresh = t, new_cat = n, include_cols = inc,
      exclude_cols = exc, cat_cols = None, imp_cats = None\<rparr>"


section \<open>Column selection\<close>

text \<open>\<^verbatim>\<open>X[col]\<close>: the column of that name, \<open>None\<close> where pandas raises \<^verbatim>\<open>KeyError\<close>.\<close>

definition getitem :: "'a dataframe \<Rightarrow> string \<Rightarrow> 'a series option" where
  "getitem X col = map_of (columns X) col"

text \<open>Writing a column back under its name: the frame keeps its shape and column order.
  The column read and written under a name is the first of that name; pandas gives a
  \<^verbatim>\<open>Series\<close> for \<^verbatim>\<open>X[col]\<close> only where the name is unique.\<close>

fun update_column ::
  "string \<Rightarrow> 'a series \<Rightarrow> (string \<times> 'a series) list \<Rightarrow> (string \<times> 'a series) list" where
  "update_column col s [] = []"
| "update_column col s ((n, c) # rest) =
     (if n = col then (n, s) # rest else (n, c) # update_column col s rest)"

definition setitem :: "'a dataframe \<Rightarrow> string \<Rightarrow> 'a series \<Rightarrow> 'a dataframe" where
  "setitem X col s = X\<lparr>columns := update_column col s (columns X)\<rparr>"

definition is_category :: "'a series \<Rightarrow> bool" where
  "is_category s = (case dtype s of Category cats \<Rightarrow> True | Other_dtype \<Rightarrow> False)"

definition column_names :: "'a dataframe \<Rightarrow> string list" where
  "column_names X = map fst (columns X)"

text \<open>\<^verbatim>\<open>X.select_dtypes('category').columns.tolist()\<close>\<close>

definition select_dtypes_category :: "'a dataframe \<Rightarrow> string list" where
  "select_dtypes_category X = map fst (filter (\<lambda>(n, s). is_category s) (columns X))"

text \<open>\<^verbatim>\<open>_cat_cols_selection\<close> (lines 145-163). A failed \<^verbatim>\<open>assert\<close> is an
  \<open>AssertionError\<close> with the assertion's message.\<close>

definition cat_cols_selection ::
  "'a dataframe \<Rightarrow> cols_arg \<Rightarrow> cols_arg \<Rightarrow> error + string list" where
  "cat_cols_selection X include exclude =
     (let cat_cols = select_dtypes_category X in
      case (case include of
              NoneArg \<Rightarrow> Inr cat_cols
            | NonList \<Rightarrow>
                Inl (AssertionError
                  ''Columns to include must be given as an instance of a list!'')
            | ListArg inc \<Rightarrow>
                Inr (filter (\<lambda>col. col \<in> set cat_cols \<or> col \<in> set inc) (column_names X)))
      of Inl e \<Rightarrow> Inl e
       | Inr cat_cols1 \<Rightarrow>
          (case exclude of
             NoneArg \<Rightarrow> Inr cat_cols1
           | NonList \<Rightarrow>
               Inl (AssertionError
                 ''Columns to exclude must be given as an instance of a list!'')
           | ListArg exc \<Rightarrow> Inr (filter (\<lambda>col. col \<notin> set exc) cat_cols1)))"

section \<open>Fitting\<close>

text \<open>
  \<^verbatim>\<open>Series.value_counts(normalize=True)\<close> of pandas. Missing cells are dropped. The index
  is the dtype's categories for a category column (also those that no cell holds, with
  count 0) and the distinct values in order of first appearance otherwise. The counts
  are sorted in descending order and then divided by their sum as floats. pandas does
  not fix the order of values of equal count; the model sorts stably.
\<close>

definition dropna :: "'a option list \<Rightarrow> 'a list" where
  "dropna cs = map the (filter (\<lambda>c. c \<noteq> None) cs)"

definition unique :: "'a list \<Rightarrow> 'a list" where
  "unique xs = rev (remdups (rev xs))"

definition count_index :: "'a series \<Rightarrow> 'a list" where
  "count_index s =
     (case dtype s of Category cats \<Rightarrow> cats | Other_dtype \<Rightarrow> unique (dropna (cells s)))"

definition counts :: "'a series \<Rightarrow> ('a \<times> nat) list" where
  "counts s = map (\<lambda>v. (v, count_list (dropna (cells s)) v)) (count_index s)"

definition normalize :: "nat \<Rightarrow> nat \<Rightarrow> pyfloat" where
  "normalize n c = (if n = 0 then NaN else Fin (of_nat c / of_nat n))"

definition value_counts :: "'a series \<Rightarrow> ('a \<times> pyfloat) list" where
  "value_counts s =
     (let cnt = counts s;
          n = sum_list (map snd cnt)
      in map (\<lambda>(v, c). (v, normalize n c)) (sort_key (\<lambda>(v, c). - int c) cnt))"

text \<open>
  The \<^verbatim>\<open>while\<close> loop of lines 85-87 over the frequencies \<open>fs\<close> of the sorted series, with
  \<open>bound\<close> for \<^verbatim>\<open>1 - self.percentile_thresh\<close>. \<^verbatim>\<open>sorted_series.iloc[i]\<close> raises
  \<^verbatim>\<open>IndexError\<close> past the end.
\<close>

function walk :: "pyfloat list \<Rightarrow> rat \<Rightarrow> pyfloat \<Rightarrow> nat \<Rightarrow> error + nat" where
  "walk fs bound tracker i =
     (if flt tracker bound
      then (if i < length fs then walk fs bound (fadd tracker (fs ! i)) (i + 1)
            else Inl IndexError)
      else Inr i)"
  by pat_completeness auto
termination
  by (relation "measure (\<lambda>(fs, bound, tracker, i). length fs - i)") auto

declare walk.simps [simp del]

text \<open>The body of the \<^verbatim>\<open>for\<close> loop of \<^verbatim>\<open>fit\<close> (lines 83-92): the list stored under
  \<^verbatim>\<open>self.imp_cats_[col]\<close>.\<close>

definition sparse_cats_of :: "'a series \<Rightarrow> rat \<Rightarrow> error + 'a list" where
  "sparse_cats_of s thresh =
     (let sorted_series = value_counts s in
      case walk (map snd sorted_series) (1 - thresh) (Fin 0) 0 of
        Inl e \<Rightarrow> Inl e
      | Inr i \<Rightarrow>
          (let sparse_cats = drop i (map fst sorted_series) in
           Inr (if length sparse_cats > 1 then sparse_cats else [])))"

text \<open>The \<^verbatim>\<open>for\<close> loop of \<^verbatim>\<open>fit\<close>. An exception leaves the dictionary as filled so far.\<close>

fun fit_loop ::
  "'a dataframe \<Rightarrow> rat \<Rightarrow> string list \<Rightarrow> (string \<rightharpoonup> 'a list)
     \<Rightarrow> (string \<rightharpoonup> 'a list) \<times> error option" where
  "fit_loop X thresh [] imp = (imp, None)"
| "fit_loop X thresh (col # cols) imp =
     (case getitem X col of
        None \<Rightarrow> (imp, Some (KeyError col))
      | Some s \<Rightarrow>
          (case sparse_cats_of s thresh of
             Inl e \<Rightarrow> (imp, Some e)
           | Inr sparse_cats \<Rightarrow> fit_loop X thresh cols (imp(col \<mapsto> sparse_cats))))"

text \<open>
  \<^verbatim>\<open>fit\<close> (lines 72-94) returns the instance as the call leaves it, and the exception if
  one was raised (\<open>None\<close>: the call returned). \<open>X\<close> is a frame by its type, so the first
  assertion holds.
\<close>

definition fit :: "'a grouper \<Rightarrow> 'a dataframe \<Rightarrow> 'a grouper \<times> error option" where
  "fit self X =
     (if \<not> index_len X > 0
      then (self, Some (AssertionError ''Input data can not be empty!''))
      else
        (case cat_cols_selection X (include_cols self) (exclude_cols self) of
           Inl e \<Rightarrow> (self, Some e)
         | Inr cc \<Rightarrow>
             (let self1 = self\<lparr>cat_cols := Some cc, imp_cats := Some Map.empty\<rparr> in
              if method self = ''freq''
              then (case fit_loop X (percentile_thresh self) cc Map.empty of
                      (imp, err) \<Rightarrow> (self1\<lparr>imp_cats := Some imp\<rparr>, err))
              else (self1, None))))"

section \<open>Transforming\<close>

text \<open>\<^verbatim>\<open>Series.isin\<close>: the mask of the rows whose value is in the list; a missing cell
  is in no list that \<^verbatim>\<open>fit\<close> records.\<close>

definition isin :: "'a series \<Rightarrow> 'a list \<Rightarrow> bool list" where
  "isin s vals = map (\<lambda>c. case c of None \<Rightarrow> False | Some v \<Rightarrow> v \<in> set vals) (cells s)"

text \<open>
  \<^verbatim>\<open>Categorical.add_categories\<close> raises \<^verbatim>\<open>ValueError\<close> when the new category is already one
  and appends it otherwise. \<^verbatim>\<open>Categorical.remove_categories\<close> keeps the other categories
  in their order; a cell that held a removed category becomes missing.
\<close>

definition add_categories :: "'a \<Rightarrow> 'a list \<Rightarrow> error + 'a list" where
  "add_categories v cats =
     (if v \<in> set cats
      then Inl (ValueError ''new categories must not include old categories'')
      else Inr (cats @ [v]))"

definition remove_categories :: "'a list \<Rightarrow> 'a list \<Rightarrow> 'a option list \<Rightarrow> 'a series" where
  "remove_categories removals cats cs =
     \<lparr>dtype = Category (filter (\<lambda>c. c \<notin> set removals) cats),
      cells = map (\<lambda>c. case c of None \<Rightarrow> None
                       | Some v \<Rightarrow> if v \<in> set removals then None else Some v) cs\<rparr>"

text \<open>
  \<^verbatim>\<open>X_new.loc[row_indices, col] = value\<close> on the column. A categorical refuses a value that
  is not one of its categories, whatever the mask.
\<close>

definition loc_set :: "bool list \<Rightarrow> 'a \<Rightarrow> 'a series \<Rightarrow> error + 'a series" where
  "loc_set row_mask v s =
     (if (case dtype s of Category cats \<Rightarrow> v \<notin> set cats | Other_dtype \<Rightarrow> False)
      then Inl (ValueError
        ''Cannot setitem on a Categorical with a new category, set the categories first'')
      else Inr (s\<lparr>cells := map (\<lambda>(m, c). if m then Some v else c) (zip row_mask (cells s))\<rparr>))"

definition collision_message :: string where
  "collision_message =
     ''You need to specify different '' @ [CHR 0x22] @ ''new_cat'' @ [CHR 0x22] @
     '' value, because the current one is already included in the category names.''"

text \<open>The category branch of the loop body (lines 123-140).\<close>

definition regroup_categories :: "'a \<Rightarrow> 'a list \<Rightarrow> 'a series \<Rightarrow> error + 'a series" where
  "regroup_categories v sparse s =
     (case dtype s of
        Other_dtype \<Rightarrow> Inr s
      | Category cats \<Rightarrow>
          (case add_categories v cats of
             Inl e \<Rightarrow> Inl (ValueError collision_message)
           | Inr cats1 \<Rightarrow>
               (let cat_removals = filter (\<lambda>c. c \<in> set cats1) (remdups sparse)
                in Inr (remove_categories cat_removals cats1 (cells s)))))"

text \<open>The body of the \<^verbatim>\<open>for\<close> loop of \<^verbatim>\<open>transform\<close> (lines 122-141).\<close>

definition transform_col ::
  "(string \<rightharpoonup> 'a list) \<Rightarrow> 'a \<Rightarrow> string \<Rightarrow> 'a dataframe \<Rightarrow> error + 'a dataframe" where
  "transform_col imp v col X_new =
     (case getitem X_new col of
        None \<Rightarrow> Inl (KeyError col)
      | Some s \<Rightarrow>
          (case imp col of
             None \<Rightarrow> Inl (KeyError col)
           | Some sparse \<Rightarrow>
               (let row_indices = isin s sparse in
                case regroup_categories v sparse s of
                  Inl e \<Rightarrow> Inl e
                | Inr s1 \<Rightarrow>
                    (case loc_set row_indices v s1 of
                       Inl e \<Rightarrow> Inl e
                     | Inr s2 \<Rightarrow> Inr (setitem X_new col s2)))))"

fun transform_loop ::
  "(string \<rightharpoonup> 'a list) \<Rightarrow> 'a \<Rightarrow> string list \<Rightarrow> 'a dataframe \<Rightarrow> error + 'a dataframe" where
  "transform_loop imp v [] X_new = Inr X_new"
| "transform_loop imp v (col # cols) X_new =
     (case transform_col imp v col X_new of
        Inl e \<Rightarrow> Inl e
      | Inr X1 \<Rightarrow> transform_loop imp v cols X1)"

definition fitting_message :: string where
  "fitting_message =
     ''Could not find the attribute.'' @ [CHR 0x0A] @
     ''Fitting is necessary before you do the transformation.''"

text \<open>\<^verbatim>\<open>transform\<close> (lines 110-143). The copy of \<open>X\<close> is the value \<open>X\<close> itself.\<close>

definition transform :: "'a grouper \<Rightarrow> 'a dataframe \<Rightarrow> error + 'a dataframe" where
  "transform self X =
     (case imp_cats self of
        None \<Rightarrow> Inl (RuntimeError fitting_message)
      | Some imp \<Rightarrow>
          (case cat_cols self of
             None \<Rightarrow> Inl (RuntimeError fitting_message)
           | Some cc \<Rightarrow> transform_loop imp (new_cat self) cc X))"


section \<open>What the claims speak of\<close>

text \<open>A column's cells with every value of \<open>sparse\<close> replaced by \<open>v\<close>; a missing cell stays
  missing.\<close>

definition group_cells :: "'a \<Rightarrow> 'a list \<Rightarrow> 'a option list \<Rightarrow> 'a option list" where
  "group_cells v sparse cs =
     map (\<lambda>c. case c of None \<Rightarrow> None | Some x \<Rightarrow> if x \<in> set sparse then Some v else Some x) cs"

text \<open>A column after grouping: the cells regrouped and, for a category column, the
  sparse values taken out of the categories and \<open>v\<close> appended.\<close>

definition grouped :: "'a \<Rightarrow> 'a list \<Rightarrow> 'a series \<Rightarrow> 'a series" where
  "grouped v sparse s =
     \<lparr>dtype = (case dtype s of
                 Other_dtype \<Rightarrow> Other_dtype
               | Category cats \<Rightarrow> Category (filter (\<lambda>c. c \<notin> set sparse) cats @ [v])),
      cells = group_cells v sparse (cells s)\<rparr>"

text \<open>The columns \<^verbatim>\<open>transform\<close> visits, and whether a frame's column of a name has the
  category dtype.\<close>

definition selected_columns :: "'a grouper \<Rightarrow> string list" where
  "selected_columns g = (case cat_cols g of None \<Rightarrow> [] | Some cc \<Rightarrow> cc)"

definition category_column :: "'a dataframe \<Rightarrow> string \<Rightarrow> bool" where
  "category_column X c = (case getitem X c of None \<Rightarrow> False | Some s \<Rightarrow> is_category s)"

text \<open>\<open>collides v X c\<close>: column \<open>c\<close> of \<open>X\<close> is a category column whose categories hold \<open>v\<close>.
  \<open>col_ready imp v X c\<close>: the loop body of \<^verbatim>\<open>transform\<close> on column \<open>c\<close> raises nothing but
  the collision error: the column is in the frame, its key is in the dictionary, and
  \<open>v\<close> is not a recorded sparse value that the column's categories lack.\<close>

definition collides :: "'a \<Rightarrow> 'a dataframe \<Rightarrow> string \<Rightarrow> bool" where
  "collides v X c =
     (case getitem X c of
        None \<Rightarrow> False
      | Some s \<Rightarrow> (case dtype s of Other_dtype \<Rightarrow> False | Category cats \<Rightarrow> v \<in> set cats))"

definition col_ready :: "(string \<rightharpoonup> 'a list) \<Rightarrow> 'a \<Rightarrow> 'a dataframe \<Rightarrow> string \<Rightarrow> bool" where
  "col_ready imp v X c =
     (case getitem X c of
        None \<Rightarrow> False
      | Some s \<Rightarrow>
          (case imp c of
             None \<Rightarrow> False
           | Some sparse \<Rightarrow>
               (case dtype s of
                  Other_dtype \<Rightarrow> True
                | Category cats \<Rightarrow> v \<in> set cats \<or> v \<notin> set sparse)))"

text \<open>
  The running cumulative share of the spec, "starting from an empty accumulator", and
  the kept prefix: the walk stops "as soon as the cumulative share reaches or exceeds"
  the bound, that is at the first \<open>k\<close> whose cumulative share is not below it.
\<close>

definition cumulative :: "pyfloat list \<Rightarrow> nat \<Rightarrow> pyfloat" where
  "cumulative fs k = foldl fadd (Fin 0) (take k fs)"

definition is_kept_prefix :: "pyfloat list \<Rightarrow> rat \<Rightarrow> nat \<Rightarrow> bool" where
  "is_kept_prefix fs bound k =
     (k \<le> length fs \<and> \<not> flt (cumulative fs k) bound \<and> (\<forall>j<k. flt (cumulative fs j) bound))"

text \<open>
  The selection contract in the spec's words: the frame's columns in their order,
  those that are declared categorical or named in the include list, without those
  named in the exclude list.
\<close>

definition selection_contract :: "'a dataframe \<Rightarrow> cols_arg \<Rightarrow> cols_arg \<Rightarrow> string list" where
  "selection_contract X include exclude =
     map fst
       (filter
          (\<lambda>(n, s). (is_category s \<or> (case include of ListArg inc \<Rightarrow> n \<in> set inc | _ \<Rightarrow> False))
                     \<and> (case exclude of ListArg exc \<Rightarrow> n \<notin> set exc | _ \<Rightarrow> True))
          (columns X))"


section \<open>Example frames\<close>

text \<open>A frame of six rows: a category column \<open>pet\<close> and a column \<open>size\<close> of another
  dtype with one missing cell; the same frame with \<open>Other\<close> among the categories of
  \<open>pet\<close>; and a frame that lacks the column \<open>pet\<close>.\<close>

definition pet_series :: "string series" where
  "pet_series =
     \<lparr>dtype = Category [''cat'', ''dog'', ''emu'', ''fox''],
      cells = [Some ''cat'', Some ''dog'', Some ''cat'', Some ''emu'', Some ''cat'', Some ''fox'']\<rparr>"

definition size_series :: "string series" where
  "size_series =
     \<lparr>dtype = Other_dtype,
      cells = [Some ''big'', Some ''big'', Some ''small'', None, Some ''big'', Some ''tiny'']\<rparr>"

definition pets_frame :: "string dataframe" where
  "pets_frame = \<lparr>index_len = 6, columns = [(''pet'', pet_series), (''size'', size_series)]\<rparr>"

definition pets_other_frame :: "string dataframe" where
  "pets_other_frame =
     \<lparr>index_len = 6,
      columns = [(''pet'', pet_series\<lparr>dtype := Category [''cat'', ''dog'', ''emu'', ''fox'', ''Other'']\<rparr>),
                 (''size'', size_series)]\<rparr>"

definition size_only_frame :: "string dataframe" where
  "size_only_frame =
     \<lparr>index_len = 6,
      columns = [(''size'', size_series\<lparr>dtype := Category [''big'', ''small'', ''tiny'', ''Other'']\<rparr>)]\<rparr>"

definition pets_plain_frame :: "string dataframe" where
  "pets_plain_frame =
     \<lparr>index_len = 6,
      columns = [(''pet'', pet_series\<lparr>dtype := Other_dtype\<rparr>), (''size'', size_series)]\<rparr>"

definition pets_plain_grouped :: "string dataframe" where
  "pets_plain_grouped =
     \<lparr>index_len = 6,
      columns =
        [(''pet'', \<lparr>dtype = Other_dtype,
                    cells = [Some ''cat'', Some ''dog'', Some ''cat'', Some ''Other'', Some ''cat'',
                             Some ''Other'']\<rparr>),
         (''size'', \<lparr>dtype = Other_dtype,
                     cells = [Some ''big'', Some ''big'', Some ''Other'', None, Some ''big'',
                              Some ''Other'']\<rparr>)]\<rparr>"

text \<open>Two instances that differ in the threshold, and what \<^verbatim>\<open>fit\<close> on the six rows makes
  of them.\<close>

definition grouper_quarter :: "string grouper" where
  "grouper_quarter = init ''freq'' (1 / 4) ''Other'' (ListArg [''size'']) NoneArg"

definition grouper_two_fifths :: "string grouper" where
  "grouper_two_fifths = init ''freq'' (2 / 5) ''Other'' (ListArg [''size'']) NoneArg"

definition fitted_quarter :: "string grouper" where
  "fitted_quarter =
     grouper_quarter\<lparr>cat_cols := Some [''pet'', ''size''],
       imp_cats := Some [''pet'' \<mapsto> [], ''size'' \<mapsto> []]\<rparr>"

definition fitted_two_fifths :: "string grouper" where
  "fitted_two_fifths =
     grouper_two_fifths\<lparr>cat_cols := Some [''pet'', ''size''],
       imp_cats := Some [''pet'' \<mapsto> [''emu'', ''fox''], ''size'' \<mapsto> [''small'', ''tiny'']]\<rparr>"

definition pets_grouped :: "string dataframe" where
  "pets_grouped =
     \<lparr>index_len = 6,
      columns =
        [(''pet'', \<lparr>dtype = Category [''cat'', ''dog'', ''Other''],
                    cells = [Some ''cat'', Some ''dog'', Some ''cat'', Some ''Other'', Some ''cat'',
                             Some ''Other'']\<rparr>),
         (''size'', \<lparr>dtype = Other_dtype,
                     cells = [Some ''big'', Some ''big'', Some ''Other'', None, Some ''big'',
                              Some ''Other'']\<rparr>)]\<rparr>"

text \<open>An instance whose method is not \<open>freq\<close>, and an instance that excludes \<open>pet\<close>.\<close>

definition grouper_median :: "string grouper" where
  "grouper_median = init ''median'' (1 / 4) ''Other'' NoneArg NoneArg"

definition grouper_exclude :: "string grouper" where
  "grouper_exclude = init ''freq'' (1 / 4) ''Other'' (ListArg [''size'']) (ListArg [''pet''])"

text \<open>
  The end-to-end example of the spec: a category column \<open>color\<close> of 100 rows, 70 red,
  20 blue, 5 green, 3 yellow and 2 purple, in any order of the rows and of the
  categories; the instance with threshold 0.05 and \<open>new_cat = 'Other'\<close>. One such frame
  has the categories in alphabetical order, as \<^verbatim>\<open>astype('category')\<close> makes them, and the
  rows colour by colour.
\<close>

definition color_counts :: "string option list \<Rightarrow> bool" where
  "color_counts cs =
     (length cs = 100 \<and> count_list cs (Some ''red'') = 70 \<and> count_list cs (Some ''blue'') = 20 \<and>
      count_list cs (Some ''green'') = 5 \<and> count_list cs (Some ''yellow'') = 3 \<and>
      count_list cs (Some ''purple'') = 2)"

definition color_series :: "string list \<Rightarrow> string option list \<Rightarrow> string series" where
  "color_series cats cs = \<lparr>dtype = Category cats, cells = cs\<rparr>"

definition color_frame :: "string list \<Rightarrow> string option list \<Rightarrow> string dataframe" where
  "color_frame cats cs = \<lparr>index_len = 100, columns = [(''color'', color_series cats cs)]\<rparr>"

definition color_grouper :: "string grouper" where
  "color_grouper = init ''freq'' (5 / 100) ''Other'' NoneArg NoneArg"

definition color_rows :: "string option list" where
  "color_rows =
     replicate 70 (Some ''red'') @ replicate 20 (Some ''blue'') @ replicate 5 (Some ''green'') @
     replicate 3 (Some ''yellow'') @ replicate 2 (Some ''purple'')"

definition color_categories :: "string list" where
  "color_categories = [''blue'', ''green'', ''purple'', ''red'', ''yellow'']"

text \<open>A frame whose only column, of another dtype than category, has no value at all.\<close>

definition missing_frame :: "string dataframe" where
  "missing_frame =
     \<lparr>index_len = 2, columns = [(''note'', \<lparr>dtype = Other_dtype, cells = [None, None]\<rparr>)]\<rparr>"

definition grouper_note :: "string grouper" where
  "grouper_note = init ''freq'' (1 / 4) ''Other'' (ListArg [''note'']) NoneArg"


section \<open>The loop of transform, column by column\<close>

text \<open>Reading and writing columns of a frame.\<close>

lemma map_of_update_column:
  "map_of (update_column col s xs) k =
     (if k = col \<and> map_of xs col \<noteq> None then Some s else map_of xs k)"
  by (induction xs) (auto)

lemma map_fst_update_column: "map fst (update_column col s xs) = map fst xs"
  by (induction xs) auto

lemma update_column_same: "map_of xs col = Some s \<Longrightarrow> update_column col s xs = xs"
  by (induction xs) (auto split: if_splits)

lemma getitem_setitem:
  "getitem (setitem X col s) k = (if k = col \<and> getitem X col \<noteq> None then Some s else getitem X k)"
  by (simp add: getitem_def setitem_def map_of_update_column)

lemma column_names_setitem: "column_names (setitem X col s) = column_names X"
  by (simp add: column_names_def setitem_def map_fst_update_column)

lemma index_len_setitem: "index_len (setitem X col s) = index_len X"
  by (simp add: setitem_def)

lemma setitem_same: "getitem X col = Some s \<Longrightarrow> setitem X col s = X"
  by (simp add: getitem_def setitem_def update_column_same)

lemma zip_mask_cells:
  "map (\<lambda>(m, c). if m then Some v else c) (zip (map f cs) (map g cs)) =
   map (\<lambda>c. if f c then Some v else g c) cs"
  by (induction cs) auto

lemma group_cells_idem: "group_cells v sparse (group_cells v sparse cs) = group_cells v sparse cs"
  by (induction cs) (auto simp: group_cells_def split: option.splits)

lemma group_cells_Nil: "group_cells v [] cs = cs"
  by (induction cs) (auto simp: group_cells_def split: option.splits)

lemma loc_set_other:
  "dtype s = Other_dtype \<Longrightarrow>
   loc_set (isin s sparse) v s = Inr (s\<lparr>cells := group_cells v sparse (cells s)\<rparr>)"
  unfolding loc_set_def isin_def group_cells_def
  by (simp add: zip_mask_cells[where g="\<lambda>c. c", simplified] ) (auto split: option.splits intro!: map_cong)

lemma regroup_cells:
  "set R \<subseteq> set sparse \<Longrightarrow>
   map (\<lambda>(m, c). if m then Some v else c)
     (zip (isin s sparse) (cells (remove_categories R cats1 (cells s))))
   = group_cells v sparse (cells s)"
  unfolding isin_def remove_categories_def group_cells_def
  by (simp add: zip_mask_cells) (auto split: option.splits intro!: map_cong)

lemma loc_set_removed:
  assumes "set R \<subseteq> set sparse"
  shows "loc_set (isin s sparse) v (remove_categories R cats1 (cells s)) =
     (if v \<notin> set (filter (\<lambda>c. c \<notin> set R) cats1)
      then Inl (ValueError
        ''Cannot setitem on a Categorical with a new category, set the categories first'')
      else Inr \<lparr>dtype = Category (filter (\<lambda>c. c \<notin> set R) cats1),
                cells = group_cells v sparse (cells s)\<rparr>)"
proof -
  have d: "dtype (remove_categories R cats1 (cells s)) = Category (filter (\<lambda>c. c \<notin> set R) cats1)"
    by (simp add: remove_categories_def)
  show ?thesis
    unfolding loc_set_def d
    using regroup_cells[OF assms, of v s cats1]
    by (simp add: remove_categories_def)
qed

text \<open>What the loop body does to a frame, case by case: the body of the proofs about
  \<^verbatim>\<open>transform\<close>.\<close>

lemma transform_col_char:
  "transform_col imp v col X =
     (case getitem X col of
        None \<Rightarrow> Inl (KeyError col)
      | Some s \<Rightarrow>
          (case imp col of
             None \<Rightarrow> Inl (KeyError col)
           | Some sparse \<Rightarrow>
               (case dtype s of
                  Other_dtype \<Rightarrow> Inr (setitem X col (s\<lparr>cells := group_cells v sparse (cells s)\<rparr>))
                | Category cats \<Rightarrow>
                    if v \<in> set cats then Inl (ValueError collision_message)
                    else if v \<in> set sparse then
                      Inl (ValueError
                        ''Cannot setitem on a Categorical with a new category, set the categories first'')
                    else Inr (setitem X col
                           \<lparr>dtype = Category (filter (\<lambda>c. c \<notin> set sparse) cats @ [v]),
                            cells = group_cells v sparse (cells s)\<rparr>))))"
proof (cases "getitem X col")
  case None
  then show ?thesis by (simp add: transform_col_def)
next
  case (Some s)
  show ?thesis
  proof (cases "imp col")
    case None
    with Some show ?thesis by (simp add: transform_col_def)
  next
    case sp: (Some sparse)
    show ?thesis
    proof (cases "dtype s")
      case Other_dtype
      with Some sp show ?thesis
        by (simp add: transform_col_def regroup_categories_def loc_set_other)
    next
      case (Category cats)
      show ?thesis
      proof (cases "v \<in> set cats")
        case True
        with Some sp Category show ?thesis
          by (simp add: transform_col_def regroup_categories_def add_categories_def)
      next
        case notin: False
        define R where "R = filter (\<lambda>c. c \<in> set (cats @ [v])) (remdups sparse)"
        have sub: "set R \<subseteq> set sparse" by (auto simp: R_def)
        have flt: "filter (\<lambda>c. c \<notin> set R) (cats @ [v]) = filter (\<lambda>c. c \<notin> set sparse) (cats @ [v])"
          unfolding R_def by (rule filter_cong) auto
        have rg: "regroup_categories v sparse s = Inr (remove_categories R (cats @ [v]) (cells s))"
          using Category notin by (simp add: regroup_categories_def add_categories_def R_def)
        have tc: "transform_col imp v col X =
            (case loc_set (isin s sparse) v (remove_categories R (cats @ [v]) (cells s)) of
               Inl e \<Rightarrow> Inl e | Inr s2 \<Rightarrow> Inr (setitem X col s2))"
          using Some sp rg by (simp add: transform_col_def)
        show ?thesis
          unfolding tc loc_set_removed[OF sub] flt
          using Some sp Category notin by auto
      qed
    qed
  qed
qed

lemma series_cells_update: "s\<lparr>cells := x\<rparr> = \<lparr>dtype = dtype s, cells = x\<rparr>"
  by (cases s) simp

lemma transform_col_Inr:
  assumes "transform_col imp v c X = Inr X1"
  shows "\<exists>s sparse. getitem X c = Some s \<and> imp c = Some sparse \<and>
           X1 = setitem X c (grouped v sparse s) \<and>
           (\<forall>cats. dtype s = Category cats \<longrightarrow> v \<notin> set cats \<and> v \<notin> set sparse)"
  using assms unfolding transform_col_char grouped_def
  by (auto simp: series_cells_update split: option.splits dtype.splits if_splits)

lemma transform_col_other:
  assumes "transform_col imp v c X = Inr X1" "k \<noteq> c"
  shows "getitem X1 k = getitem X k"
  using transform_col_Inr[OF assms(1)] assms(2) by (auto simp: getitem_setitem)

lemma transform_col_frame:
  assumes "transform_col imp v c X = Inr X1"
  shows "column_names X1 = column_names X \<and> index_len X1 = index_len X"
  using transform_col_Inr[OF assms] by (auto simp: column_names_setitem index_len_setitem)

lemma transform_loop_frame:
  "transform_loop imp v cs X = Inr Y \<Longrightarrow>
   column_names Y = column_names X \<and> index_len Y = index_len X"
proof (induction cs arbitrary: X)
  case Nil
  then show ?case by simp
next
  case (Cons c cs)
  then obtain X1 where 1: "transform_col imp v c X = Inr X1" and 2: "transform_loop imp v cs X1 = Inr Y"
    by (auto split: sum.splits)
  from Cons.IH[OF 2] transform_col_frame[OF 1] show ?case by simp
qed

lemma transform_loop_untouched:
  "transform_loop imp v cs X = Inr Y \<Longrightarrow> col \<notin> set cs \<Longrightarrow> getitem Y col = getitem X col"
proof (induction cs arbitrary: X)
  case Nil
  then show ?case by simp
next
  case (Cons c cs)
  then obtain X1 where 1: "transform_col imp v c X = Inr X1" and 2: "transform_loop imp v cs X1 = Inr Y"
    by (auto split: sum.splits)
  from Cons.prems have "col \<noteq> c" "col \<notin> set cs" by auto
  with Cons.IH[OF 2] transform_col_other[OF 1] show ?case by simp
qed

lemma grouped_other_idem:
  "dtype s = Other_dtype \<Longrightarrow> grouped v sparse (grouped v sparse s) = grouped v sparse s"
  by (simp add: grouped_def group_cells_idem)

lemma transform_loop_selected:
  "transform_loop imp v cs X = Inr Y \<Longrightarrow> col \<in> set cs \<Longrightarrow>
   \<exists>s sparse. getitem X col = Some s \<and> imp col = Some sparse \<and>
      getitem Y col = Some (grouped v sparse s) \<and>
      (\<forall>cats. dtype s = Category cats \<longrightarrow> v \<notin> set cats \<and> v \<notin> set sparse)"
proof (induction cs arbitrary: X)
  case Nil
  then show ?case by simp
next
  case (Cons c cs)
  then obtain X1 where 1: "transform_col imp v c X = Inr X1" and 2: "transform_loop imp v cs X1 = Inr Y"
    by (auto split: sum.splits)
  show ?case
  proof (cases "col = c")
    case False
    with Cons.prems have "col \<in> set cs" by simp
    from Cons.IH[OF 2 this] transform_col_other[OF 1 False] show ?thesis by simp
  next
    case True
    from transform_col_Inr[OF 1] True obtain s sparse where
      s: "getitem X col = Some s" "imp col = Some sparse"
         "X1 = setitem X col (grouped v sparse s)"
         "\<forall>cats. dtype s = Category cats \<longrightarrow> v \<notin> set cats \<and> v \<notin> set sparse"
      by auto
    then have g1: "getitem X1 col = Some (grouped v sparse s)"
      by (simp add: getitem_setitem)
    show ?thesis
    proof (cases "col \<in> set cs")
      case False
      from transform_loop_untouched[OF 2 False] g1 s show ?thesis by simp
    next
      case True
      from Cons.IH[OF 2 True] g1 s(2) have
        y: "getitem Y col = Some (grouped v sparse (grouped v sparse s))"
        and nc: "\<forall>cats. dtype (grouped v sparse s) = Category cats \<longrightarrow> v \<notin> set cats"
        by auto
      have "dtype s = Other_dtype"
      proof (cases "dtype s")
        case (Category cats)
        then have "dtype (grouped v sparse s) = Category (filter (\<lambda>c. c \<notin> set sparse) cats @ [v])"
          by (simp add: grouped_def)
        with nc show ?thesis by auto
      qed simp
      with y s show ?thesis by (simp add: grouped_other_idem)
    qed
  qed
qed

lemma col_ready_step:
  assumes "transform_col imp v c X = Inr X1" "col_ready imp v X k"
  shows "col_ready imp v X1 k"
proof (cases "k = c")
  case False
  with transform_col_other[OF assms(1) False] assms(2) show ?thesis
    by (simp add: col_ready_def)
next
  case True
  from transform_col_Inr[OF assms(1)] obtain s sparse where
    s: "getitem X c = Some s" "imp c = Some sparse" "X1 = setitem X c (grouped v sparse s)"
    by auto
  then have "getitem X1 c = Some (grouped v sparse s)" by (simp add: getitem_setitem)
  with s(2) True show ?thesis
    by (cases "dtype s") (auto simp: col_ready_def grouped_def)
qed

lemma collides_step:
  assumes "transform_col imp v c X = Inr X1" "collides v X k"
  shows "k \<noteq> c \<and> collides v X1 k"
proof -
  have ne: "k \<noteq> c"
  proof
    assume kc: "k = c"
    from transform_col_Inr[OF assms(1)] obtain s where
      "getitem X c = Some s" "\<forall>cats. dtype s = Category cats \<longrightarrow> v \<notin> set cats"
      by auto
    with assms(2) kc show False
      by (cases "dtype s") (auto simp: collides_def)
  qed
  with transform_col_other[OF assms(1) ne] assms(2) show ?thesis by (simp add: collides_def)
qed

lemma transform_col_ready:
  assumes "col_ready imp v X c"
  shows "transform_col imp v c X = Inl (ValueError collision_message) \<or> (\<exists>X1. transform_col imp v c X = Inr X1)"
  using assms unfolding transform_col_char col_ready_def
  by (auto split: option.splits dtype.splits)

lemma transform_loop_collision:
  "\<forall>c \<in> set cs. col_ready imp v X c \<Longrightarrow> col \<in> set cs \<Longrightarrow> collides v X col \<Longrightarrow>
   transform_loop imp v cs X = Inl (ValueError collision_message)"
proof (induction cs arbitrary: X)
  case Nil
  then show ?case by simp
next
  case (Cons c cs)
  from Cons.prems(1) have rc: "col_ready imp v X c" by simp
  from transform_col_ready[OF rc] show ?case
  proof
    assume "transform_col imp v c X = Inl (ValueError collision_message)"
    then show ?thesis by simp
  next
    assume "\<exists>X1. transform_col imp v c X = Inr X1"
    then obtain X1 where 1: "transform_col imp v c X = Inr X1" ..
    from collides_step[OF 1 Cons.prems(3)] Cons.prems(2)
    have c1: "col \<in> set cs" "collides v X1 col" by auto
    have "\<forall>k \<in> set cs. col_ready imp v X1 k"
      using Cons.prems(1) col_ready_step[OF 1] by simp
    from Cons.IH[OF this c1] 1 show ?thesis by simp
  qed
qed

lemma transform_loop_never_returns:
  assumes "col \<in> set cs" "collides v X col"
  shows "\<exists>e. transform_loop imp v cs X = Inl e"
proof (cases "transform_loop imp v cs X")
  case (Inl e)
  then show ?thesis by blast
next
  case (Inr Y)
  from transform_loop_selected[OF Inr assms(1)] obtain s where
    "getitem X col = Some s" "\<forall>cats. dtype s = Category cats \<longrightarrow> v \<notin> set cats"
    by auto
  with assms(2) show ?thesis
    by (cases "dtype s") (auto simp: collides_def)
qed

lemma transform_loop_stable:
  "\<forall>c \<in> set cs. \<exists>s sparse. getitem Y c = Some s \<and> imp c = Some sparse \<and>
       dtype s = Other_dtype \<and> group_cells v sparse (cells s) = cells s \<Longrightarrow>
   transform_loop imp v cs Y = Inr Y"
proof (induction cs)
  case Nil
  then show ?case by simp
next
  case (Cons c cs)
  then obtain s sparse where s: "getitem Y c = Some s" "imp c = Some sparse"
      "dtype s = Other_dtype" "group_cells v sparse (cells s) = cells s"
    by auto
  then have "transform_col imp v c Y = Inr Y"
    by (simp add: transform_col_char setitem_same)
  with Cons show ?case by simp
qed


section \<open>Counting\<close>

lemma count_list_dropna: "count_list (dropna cs) v = count_list cs (Some v)"
  by (induction cs) (auto simp: dropna_def)

lemma count_list_replicate: "count_list (replicate n x) y = (if x = y then n else 0)"
  by (induction n) auto

lemma sum_list_mset_cong:
  fixes f :: "'a \<Rightarrow> nat"
  assumes "mset xs = mset ys"
  shows "sum_list (map f xs) = sum_list (map f ys)"
proof -
  have "sum_list (map f xs) = sum_mset (image_mset f (mset xs))"
    by (simp add: sum_mset_sum_list[symmetric] del: sum_mset_sum_list)
  also have "\<dots> = sum_mset (image_mset f (mset ys))" using assms by simp
  also have "\<dots> = sum_list (map f ys)"
    by (simp add: sum_mset_sum_list[symmetric] del: sum_mset_sum_list)
  finally show ?thesis .
qed

section \<open>The walk and the loop of fit\<close>

lemma cumulative_0: "cumulative fs 0 = Fin 0"
  by (simp add: cumulative_def)

lemma cumulative_Suc: "i < length fs \<Longrightarrow> cumulative fs (Suc i) = fadd (cumulative fs i) (fs ! i)"
  by (simp add: cumulative_def take_Suc_conv_app_nth)







lemma sparse_cats_of_Inr:
  assumes "sparse_cats_of s t = Inr sc"
  shows "\<exists>i. walk (map snd (value_counts s)) (1 - t) (Fin 0) 0 = Inr i \<and>
     sc = (if length (drop i (map fst (value_counts s))) > 1
           then drop i (map fst (value_counts s)) else [])"
  using assms by (auto simp: sparse_cats_of_def Let_def split: sum.splits)


lemma fit_loop_result:
  "fit_loop X t cs m0 = (imp, None) \<Longrightarrow>
   (\<forall>c \<in> set cs. \<exists>s sc. getitem X c = Some s \<and> sparse_cats_of s t = Inr sc \<and> imp c = Some sc) \<and>
   (\<forall>c. c \<notin> set cs \<longrightarrow> imp c = m0 c)"
proof (induction cs arbitrary: m0)
  case Nil
  then show ?case by simp
next
  case (Cons c cs)
  then obtain s sc where s: "getitem X c = Some s" "sparse_cats_of s t = Inr sc"
    and rest: "fit_loop X t cs (m0(c \<mapsto> sc)) = (imp, None)"
    by (auto split: option.splits sum.splits)
  from Cons.IH[OF rest] have
    ih1: "\<forall>c' \<in> set cs. \<exists>s sc. getitem X c' = Some s \<and> sparse_cats_of s t = Inr sc \<and> imp c' = Some sc"
    and ih2: "\<forall>c'. c' \<notin> set cs \<longrightarrow> imp c' = (m0(c \<mapsto> sc)) c'"
    by auto
  have "\<exists>s sc. getitem X c = Some s \<and> sparse_cats_of s t = Inr sc \<and> imp c = Some sc"
  proof (cases "c \<in> set cs")
    case True
    with ih1 show ?thesis by blast
  next
    case False
    with ih2 have "imp c = Some sc" by simp
    with s show ?thesis by blast
  qed
  with ih1 ih2 show ?case by auto
qed

lemma fit_freq_result:
  assumes "fit g X = (g', None)" "method g = ''freq''"
  shows "\<exists>cc imp. index_len X > 0 \<and>
     cat_cols_selection X (include_cols g) (exclude_cols g) = Inr cc \<and>
     fit_loop X (percentile_thresh g) cc Map.empty = (imp, None) \<and>
     g' = g\<lparr>cat_cols := Some cc, imp_cats := Some imp\<rparr>"
  using assms by (auto simp: fit_def Let_def split: if_splits sum.splits prod.splits)


lemma index_value_counts: "set (map fst (value_counts s)) = set (count_index s)"
proof -
  have "map fst (value_counts s) = map fst (sort_key (\<lambda>(v, c). - int c) (counts s))"
    by (simp add: value_counts_def Let_def split_def)
  then have "set (map fst (value_counts s)) = fst ` set (counts s)" by simp
  also have "\<dots> = set (count_index s)" by (force simp: counts_def)
  finally show ?thesis .
qed

lemma sparse_cats_subset:
  assumes "sparse_cats_of s t = Inr sc"
  shows "set sc \<subseteq> set (count_index s)"
proof -
  from sparse_cats_of_Inr[OF assms] obtain i where
    "sc = (if length (drop i (map fst (value_counts s))) > 1
           then drop i (map fst (value_counts s)) else [])" by auto
  then have "set sc \<subseteq> set (map fst (value_counts s))"
    by (auto dest: in_set_dropD)
  then show ?thesis by (simp only: index_value_counts)
qed

lemma fit_makes_ready:
  assumes "fit g0 X = (g, None)" "method g0 = ''freq''"
  shows "\<exists>imp cc. imp_cats g = Some imp \<and> cat_cols g = Some cc \<and>
           (\<forall>c \<in> set cc. col_ready imp (new_cat g) X c)"
proof -
  from fit_freq_result[OF assms] obtain cc imp where
    loop: "fit_loop X (percentile_thresh g0) cc Map.empty = (imp, None)"
    and g: "g = g0\<lparr>cat_cols := Some cc, imp_cats := Some imp\<rparr>"
    by auto
  have "\<forall>c \<in> set cc. col_ready imp (new_cat g) X c"
  proof
    fix c assume "c \<in> set cc"
    with fit_loop_result[OF loop] obtain s sc where
      s: "getitem X c = Some s" "sparse_cats_of s (percentile_thresh g0) = Inr sc" "imp c = Some sc"
      by blast
    from sparse_cats_subset[OF s(2)] have sub: "set sc \<subseteq> set (count_index s)" .
    show "col_ready imp (new_cat g) X c"
    proof (cases "dtype s")
      case Other_dtype
      with s show ?thesis by (simp add: col_ready_def)
    next
      case (Category cats)
      with sub have "set sc \<subseteq> set cats" by (simp add: count_index_def)
      with s Category show ?thesis by (auto simp: col_ready_def)
    qed
  qed
  with g show ?thesis by simp
qed


section \<open>The example frames, evaluated\<close>

lemma value_counts_pet: "value_counts pet_series =
   [(''cat'', Fin (1 / 2)), (''dog'', Fin (1 / 6)), (''emu'', Fin (1 / 6)), (''fox'', Fin (1 / 6))]"
  by (simp add: value_counts_def counts_def count_index_def pet_series_def dropna_def normalize_def)

lemma value_counts_size: "value_counts size_series =
   [(''big'', Fin (3 / 5)), (''small'', Fin (1 / 5)), (''tiny'', Fin (1 / 5))]"
  by (simp add: value_counts_def counts_def count_index_def size_series_def dropna_def normalize_def unique_def)

lemma sparse_pet_quarter: "sparse_cats_of pet_series (1/4) = Inr []"
  by (simp add: sparse_cats_of_def value_counts_pet walk.simps)

lemma sparse_size_quarter: "sparse_cats_of size_series (1/4) = Inr []"
  by (simp add: sparse_cats_of_def value_counts_size walk.simps)

lemma sparse_pet_two_fifths: "sparse_cats_of pet_series (2/5) = Inr [''emu'', ''fox'']"
  by (simp add: sparse_cats_of_def value_counts_pet walk.simps)

lemma sparse_size_two_fifths: "sparse_cats_of size_series (2/5) = Inr [''small'', ''tiny'']"
  by (simp add: sparse_cats_of_def value_counts_size walk.simps)

lemma getitem_pets: "getitem pets_frame ''pet'' = Some pet_series" "getitem pets_frame ''size'' = Some size_series"
  by (simp_all add: getitem_def pets_frame_def)

lemma selection_pets: "cat_cols_selection pets_frame (ListArg [''size'']) NoneArg = Inr [''pet'', ''size'']"
  by (simp add: cat_cols_selection_def select_dtypes_category_def column_names_def pets_frame_def
      is_category_def pet_series_def size_series_def)

lemma fit_quarter: "fit grouper_quarter pets_frame = (fitted_quarter, None)"
  by (simp add: fit_def grouper_quarter_def fitted_quarter_def init_def selection_pets getitem_pets sparse_pet_quarter sparse_size_quarter)
    (simp add: pets_frame_def)

lemma fit_two_fifths: "fit grouper_two_fifths pets_frame = (fitted_two_fifths, None)"
  by (simp add: fit_def grouper_two_fifths_def fitted_two_fifths_def init_def selection_pets getitem_pets sparse_pet_two_fifths sparse_size_two_fifths)
    (simp add: pets_frame_def)

lemma transform_pets: "transform fitted_two_fifths pets_frame = Inr pets_grouped"
  by (simp add: transform_def fitted_two_fifths_def grouper_two_fifths_def init_def transform_col_char
      getitem_pets pet_series_def size_series_def setitem_def pets_frame_def pets_grouped_def
      group_cells_def getitem_def)


section \<open>Claims about transform\<close>

lemma transform_plain: "transform fitted_two_fifths pets_plain_frame = Inr pets_plain_grouped"
  by (simp add: transform_def fitted_two_fifths_def grouper_two_fifths_def init_def transform_col_char
      pet_series_def size_series_def setitem_def pets_plain_frame_def pets_plain_grouped_def
      group_cells_def getitem_def)

lemma selected_two_fifths: "selected_columns fitted_two_fifths = [''pet'', ''size'']"
  by (simp add: selected_columns_def fitted_two_fifths_def)

lemma transform_loop_of:
  "transform g X = Inr Y \<Longrightarrow>
   \<exists>imp. imp_cats g = Some imp \<and> cat_cols g = Some (selected_columns g) \<and>
     transform_loop imp (new_cat g) (selected_columns g) X = Inr Y"
  by (auto simp: transform_def selected_columns_def split: option.splits)

text \<open>
  Claim C6. Whenever \<^verbatim>\<open>transform\<close> returns, a selected column that had the category dtype
  in the input has in the output the categories of the input without the column's
  recorded sparse values, followed by \<open>new_cat\<close>: \<open>new_cat\<close> is a member of the output
  domain, and no sparse value that was in the input domain is.
\<close>

theorem domain_shrink:
  assumes "transform g X = Inr Y" "col \<in> set (selected_columns g)"
    "getitem X col = Some s" "dtype s = Category cats"
  shows "\<exists>imp sparse s' cats'.
           imp_cats g = Some imp \<and> imp col = Some sparse \<and>
           getitem Y col = Some s' \<and> dtype s' = Category cats' \<and>
           cats' = filter (\<lambda>c. c \<notin> set sparse) cats @ [new_cat g] \<and>
           new_cat g \<in> set cats' \<and>
           (\<forall>x \<in> set sparse. x \<in> set cats \<longrightarrow> x \<notin> set cats')"
proof -
  from transform_loop_of[OF assms(1)] obtain imp where
    imp: "imp_cats g = Some imp"
    and loop: "transform_loop imp (new_cat g) (selected_columns g) X = Inr Y"
    by auto
  from transform_loop_selected[OF loop assms(2)] assms(3) obtain sparse where
    sp: "imp col = Some sparse" "getitem Y col = Some (grouped (new_cat g) sparse s)"
      "new_cat g \<notin> set sparse"
    using assms(4) by auto
  have "dtype (grouped (new_cat g) sparse s) =
          Category (filter (\<lambda>c. c \<notin> set sparse) cats @ [new_cat g])"
    using assms(4) by (simp add: grouped_def)
  with imp sp show ?thesis by auto
qed

theorem domain_shrink_witness:
  "\<exists>s'. getitem pets_grouped ''pet'' = Some s' \<and> dtype s' = Category [''cat'', ''dog'', ''Other''] \<and>
         ''Other'' \<in> set [''cat'', ''dog'', ''Other''] \<and> ''emu'' \<notin> set [''cat'', ''dog'', ''Other'']"
proof -
  have sel: "''pet'' \<in> set (selected_columns fitted_two_fifths)"
    by (simp add: selected_two_fifths)
  have dt: "dtype pet_series = Category [''cat'', ''dog'', ''emu'', ''fox'']"
    by (simp add: pet_series_def)
  from domain_shrink[OF transform_pets sel getitem_pets(1) dt]
  show ?thesis
    by (auto simp: fitted_two_fifths_def grouper_two_fifths_def init_def)
qed


lemma transform_loop_twice_category:
  assumes "transform_loop imp v cs X = Inr Y" "col \<in> set cs" "category_column X col"
  shows "transform_loop imp v cs Y = Inl (ValueError collision_message)"
proof -
  have ready: "\<forall>c \<in> set cs. col_ready imp v Y c"
  proof
    fix c assume "c \<in> set cs"
    from transform_loop_selected[OF assms(1) this] obtain s sparse where
      "imp c = Some sparse" "getitem Y c = Some (grouped v sparse s)"
      by auto
    then show "col_ready imp v Y c"
      by (cases "dtype s") (auto simp: col_ready_def grouped_def)
  qed
  from transform_loop_selected[OF assms(1,2)] obtain s sparse where
    s: "getitem X col = Some s" "getitem Y col = Some (grouped v sparse s)"
    by auto
  with assms(3) have "collides v Y col"
    by (cases "dtype s") (auto simp: collides_def category_column_def is_category_def grouped_def)
  from transform_loop_collision[OF ready assms(2) this] show ?thesis .
qed

lemma transform_loop_twice_plain:
  assumes "transform_loop imp v cs X = Inr Y" "\<forall>c \<in> set cs. \<not> category_column X c"
  shows "transform_loop imp v cs Y = Inr Y"
proof (rule transform_loop_stable, rule ballI)
  fix c assume c: "c \<in> set cs"
  from transform_loop_selected[OF assms(1) c] obtain s sparse where
    s: "getitem X c = Some s" "imp c = Some sparse" "getitem Y c = Some (grouped v sparse s)"
    by auto
  from assms(2) c s(1) have "dtype s = Other_dtype"
    by (cases "dtype s") (auto simp: category_column_def is_category_def)
  then have "dtype (grouped v sparse s) = Other_dtype \<and>
      group_cells v sparse (cells (grouped v sparse s)) = cells (grouped v sparse s)"
    by (simp add: grouped_def group_cells_idem)
  with s show "\<exists>s sparse. getitem Y c = Some s \<and> imp c = Some sparse \<and>
       dtype s = Other_dtype \<and> group_cells v sparse (cells s) = cells s"
    by blast
qed

text \<open>
  Claim C3, as amended. When \<^verbatim>\<open>transform\<close> returns \<open>Y\<close> for \<open>X\<close>, a second call on \<open>Y\<close> returns
  \<open>Y\<close> again if no selected column of \<open>X\<close> has the category dtype, and raises the
  collision \<^verbatim>\<open>ValueError\<close> if one has: the first call put \<open>new_cat\<close> among its categories.
\<close>

theorem transform_twice:
  assumes "transform g X = Inr Y"
  shows "transform g Y =
           (if \<exists>c \<in> set (selected_columns g). category_column X c
            then Inl (ValueError collision_message) else Inr Y)"
proof -
  from transform_loop_of[OF assms] obtain imp where
    imp: "imp_cats g = Some imp" "cat_cols g = Some (selected_columns g)"
    and loop: "transform_loop imp (new_cat g) (selected_columns g) X = Inr Y"
    by auto
  have t: "transform g Y = transform_loop imp (new_cat g) (selected_columns g) Y"
    using imp by (simp add: transform_def)
  show ?thesis
  proof (cases "\<exists>c \<in> set (selected_columns g). category_column X c")
    case True
    then obtain c where "c \<in> set (selected_columns g)" "category_column X c" by blast
    from transform_loop_twice_category[OF loop this] t True show ?thesis by simp
  next
    case False
    then have "\<forall>c \<in> set (selected_columns g). \<not> category_column X c" by blast
    from transform_loop_twice_plain[OF loop this] t False show ?thesis by simp
  qed
qed

theorem transform_twice_witness:
  "transform fitted_two_fifths pets_plain_grouped = Inr pets_plain_grouped"
proof -
  have "\<not> (\<exists>c \<in> set (selected_columns fitted_two_fifths). category_column pets_plain_frame c)"
    by (simp add: selected_two_fifths category_column_def getitem_def pets_plain_frame_def
        is_category_def pet_series_def size_series_def)
  with transform_twice[OF transform_plain] show ?thesis by simp
qed

text \<open>
  The claim as stated fails on the six rows: \<^verbatim>\<open>fit\<close> returns, \<^verbatim>\<open>transform\<close> returns the
  grouped frame, and \<^verbatim>\<open>transform\<close> of the grouped frame raises.
\<close>

theorem transform_twice_counterexample:
  "fit grouper_two_fifths pets_frame = (fitted_two_fifths, None) \<and>
   transform fitted_two_fifths pets_frame = Inr pets_grouped \<and>
   transform fitted_two_fifths pets_grouped = Inl (ValueError collision_message) \<and>
   transform fitted_two_fifths pets_grouped \<noteq> transform fitted_two_fifths pets_frame"
proof -
  have "transform fitted_two_fifths pets_grouped = Inl (ValueError collision_message)"
    by (simp add: transform_def fitted_two_fifths_def grouper_two_fifths_def init_def
        transform_col_char pets_grouped_def getitem_def)
  with fit_two_fifths transform_pets show ?thesis by simp
qed

text \<open>
  Claim C4, as amended. Whenever \<^verbatim>\<open>transform\<close> returns, a selected column whose recorded
  sparse list is empty keeps every cell; a column of another dtype keeps its dtype,
  and a category column gets \<open>new_cat\<close> appended to its categories.
\<close>

theorem transform_empty_sparse:
  assumes "transform g X = Inr Y" "col \<in> set (selected_columns g)"
    "imp_cats g = Some imp" "imp col = Some []" "getitem X col = Some s"
  shows "\<exists>s'. getitem Y col = Some s' \<and> cells s' = cells s \<and>
           dtype s' = (case dtype s of
                         Other_dtype \<Rightarrow> Other_dtype
                       | Category cats \<Rightarrow> Category (cats @ [new_cat g]))"
proof -
  from transform_loop_of[OF assms(1)] assms(3) have
    loop: "transform_loop imp (new_cat g) (selected_columns g) X = Inr Y"
    by auto
  from transform_loop_selected[OF loop assms(2)] assms(4,5)
  have "getitem Y col = Some (grouped (new_cat g) [] s)" by auto
  then show ?thesis
    by (cases "dtype s") (auto simp: grouped_def group_cells_Nil)
qed

theorem transform_empty_sparse_witness:
  "\<exists>Y s'. transform fitted_quarter pets_frame = Inr Y \<and> getitem Y ''size'' = Some s' \<and>
      cells s' = cells size_series \<and> dtype s' = Other_dtype"
proof -
  obtain Y where Y: "transform fitted_quarter pets_frame = Inr Y"
    by (simp add: transform_def fitted_quarter_def grouper_quarter_def init_def
        transform_col_char pets_frame_def getitem_def pet_series_def size_series_def setitem_def)
  have sel: "''size'' \<in> set (selected_columns fitted_quarter)"
    by (simp add: selected_columns_def fitted_quarter_def)
  have imp: "imp_cats fitted_quarter = Some [''pet'' \<mapsto> [], ''size'' \<mapsto> []]"
    by (simp add: fitted_quarter_def)
  have e: "[''pet'' \<mapsto> [], ''size'' \<mapsto> ([]::string list)] ''size'' = Some []" by simp
  from transform_empty_sparse[OF Y sel imp e getitem_pets(2)] Y show ?thesis
    by (auto simp: size_series_def)
qed

text \<open>
  The claim as stated fails on the six rows with threshold 1/4: the walk on \<open>pet\<close> leaves
  the one candidate \<open>fox\<close>, the recorded list is empty, and \<^verbatim>\<open>transform\<close> changes the domain
  of \<open>pet\<close>.
\<close>

theorem transform_empty_sparse_counterexample:
  "fit grouper_quarter pets_frame = (fitted_quarter, None) \<and>
   walk (map snd (value_counts pet_series)) (1 - 1 / 4) (Fin 0) 0 = Inr 3 \<and>
   drop 3 (map fst (value_counts pet_series)) = [''fox''] \<and>
   (\<exists>imp. imp_cats fitted_quarter = Some imp \<and> imp ''pet'' = Some []) \<and>
   (\<exists>Y s'. transform fitted_quarter pets_frame = Inr Y \<and> getitem Y ''pet'' = Some s' \<and>
        dtype s' = Category [''cat'', ''dog'', ''emu'', ''fox'', ''Other''] \<and>
        dtype s' \<noteq> dtype pet_series)"
proof -
  have w: "walk (map snd (value_counts pet_series)) (1 - 1 / 4) (Fin 0) 0 = Inr 3"
    by (simp add: value_counts_pet walk.simps)
  have d: "drop 3 (map fst (value_counts pet_series)) = [''fox'']"
    by (simp add: value_counts_pet)
  have i: "\<exists>imp. imp_cats fitted_quarter = Some imp \<and> imp ''pet'' = Some []"
    by (simp add: fitted_quarter_def)
  have t: "\<exists>Y s'. transform fitted_quarter pets_frame = Inr Y \<and> getitem Y ''pet'' = Some s' \<and>
        dtype s' = Category [''cat'', ''dog'', ''emu'', ''fox'', ''Other''] \<and>
        dtype s' \<noteq> dtype pet_series"
    by (simp add: transform_def fitted_quarter_def grouper_quarter_def init_def
        transform_col_char pets_frame_def getitem_def pet_series_def size_series_def setitem_def)
  from fit_quarter w d i t show ?thesis by blast
qed

text \<open>
  Claim C7, as amended. When a selected column of the frame is a category column whose
  categories hold \<open>new_cat\<close>, \<^verbatim>\<open>transform\<close> never returns a frame. The error is the collision
  \<^verbatim>\<open>ValueError\<close> when every selected column is ready (\<open>col_ready\<close>), and so whenever the frame
  is the one that \<^verbatim>\<open>fit\<close> with the method \<open>freq\<close> was run on.
\<close>

theorem sentinel_collision:
  assumes "imp_cats g = Some imp" "cat_cols g = Some cc" "col \<in> set cc"
    "collides (new_cat g) X col"
  shows "(\<exists>e. transform g X = Inl e) \<and>
         ((\<forall>c \<in> set cc. col_ready imp (new_cat g) X c) \<longrightarrow>
            transform g X = Inl (ValueError collision_message)) \<and>
         (\<forall>g0. fit g0 X = (g, None) \<and> method g0 = ''freq'' \<longrightarrow>
            transform g X = Inl (ValueError collision_message))"
proof -
  have t: "transform g X = transform_loop imp (new_cat g) cc X"
    using assms(1,2) by (simp add: transform_def)
  from transform_loop_never_returns[OF assms(3,4)] t
  have 1: "\<exists>e. transform g X = Inl e" by simp
  have 2: "(\<forall>c \<in> set cc. col_ready imp (new_cat g) X c) \<longrightarrow>
            transform g X = Inl (ValueError collision_message)"
    using transform_loop_collision[OF _ assms(3,4)] t by simp
  have 3: "\<forall>g0. fit g0 X = (g, None) \<and> method g0 = ''freq'' \<longrightarrow>
            transform g X = Inl (ValueError collision_message)"
  proof (intro allI impI)
    fix g0 assume "fit g0 X = (g, None) \<and> method g0 = ''freq''"
    then have "fit g0 X = (g, None)" "method g0 = ''freq''" by simp_all
    from fit_makes_ready[OF this] assms(1,2) have "\<forall>c \<in> set cc. col_ready imp (new_cat g) X c"
      by simp
    with 2 show "transform g X = Inl (ValueError collision_message)" by blast
  qed
  from 1 2 3 show ?thesis by blast
qed

theorem sentinel_collision_witness:
  "transform fitted_two_fifths pets_other_frame = Inl (ValueError collision_message)"
proof -
  have i: "imp_cats fitted_two_fifths =
      Some [''pet'' \<mapsto> [''emu'', ''fox''], ''size'' \<mapsto> [''small'', ''tiny'']]"
    by (simp add: fitted_two_fifths_def)
  have c: "cat_cols fitted_two_fifths = Some [''pet'', ''size'']"
    by (simp add: fitted_two_fifths_def)
  have n: "new_cat fitted_two_fifths = ''Other''"
    by (simp add: fitted_two_fifths_def grouper_two_fifths_def init_def)
  have m: "''pet'' \<in> set [''pet'', ''size'']" by simp
  have col: "collides (new_cat fitted_two_fifths) pets_other_frame ''pet''"
    by (simp add: n collides_def getitem_def pets_other_frame_def pet_series_def)
  have r: "\<forall>c \<in> set [''pet'', ''size''].
      col_ready [''pet'' \<mapsto> [''emu'', ''fox''], ''size'' \<mapsto> [''small'', ''tiny'']]
        (new_cat fitted_two_fifths) pets_other_frame c"
    by (simp add: n col_ready_def getitem_def pets_other_frame_def pet_series_def size_series_def)
  from sentinel_collision[OF i c m col] r show ?thesis by blast
qed

text \<open>
  The claim as stated fails on a frame that lacks the column \<open>pet\<close>, which the loop
  visits before \<open>size\<close>: \<^verbatim>\<open>X_new[col]\<close> raises \<^verbatim>\<open>KeyError\<close> first.
\<close>

theorem sentinel_collision_counterexample:
  "fit grouper_two_fifths pets_frame = (fitted_two_fifths, None) \<and>
   ''size'' \<in> set (selected_columns fitted_two_fifths) \<and>
   collides (new_cat fitted_two_fifths) size_only_frame ''size'' \<and>
   transform fitted_two_fifths size_only_frame = Inl (KeyError ''pet'')"
proof -
  have n: "new_cat fitted_two_fifths = ''Other''"
    by (simp add: fitted_two_fifths_def grouper_two_fifths_def init_def)
  have 1: "collides (new_cat fitted_two_fifths) size_only_frame ''size''"
    by (simp add: n collides_def getitem_def size_only_frame_def size_series_def)
  have 2: "transform fitted_two_fifths size_only_frame = Inl (KeyError ''pet'')"
    by (simp add: transform_def fitted_two_fifths_def transform_col_def getitem_def
        size_only_frame_def)
  from fit_two_fifths 1 2 show ?thesis by (simp add: selected_two_fifths)
qed


section \<open>Claims about fit\<close>







lemma category_names:
  assumes "distinct (map fst xs)" "(n, s) \<in> set xs"
  shows "n \<in> set (map fst (filter (\<lambda>(n, s). P s) xs)) \<longleftrightarrow> P s"
proof
  assume "n \<in> set (map fst (filter (\<lambda>(n, s). P s) xs))"
  then obtain s' where "(n, s') \<in> set xs" "P s'" by auto
  with assms eq_key_imp_eq_value[OF assms(1)] show "P s" by blast
next
  assume "P s"
  with assms(2) show "n \<in> set (map fst (filter (\<lambda>(n, s). P s) xs))" by force
qed

lemma selection_is_contract:
  assumes "distinct (column_names X)" "include \<noteq> NonList" "exclude \<noteq> NonList"
  shows "cat_cols_selection X include exclude = Inr (selection_contract X include exclude)"
proof -
  let ?xs = "columns X"
  have d: "distinct (map fst ?xs)" using assms(1) by (simp add: column_names_def)
  have inc: "filter (\<lambda>col. col \<in> set (select_dtypes_category X) \<or> col \<in> set l) (column_names X)
        = map fst (filter (\<lambda>(n, s). is_category s \<or> n \<in> set l) ?xs)" for l
  proof -
    have "filter (\<lambda>col. col \<in> set (select_dtypes_category X) \<or> col \<in> set l) (map fst ?xs)
        = map fst (filter (\<lambda>p. fst p \<in> set (select_dtypes_category X) \<or> fst p \<in> set l) ?xs)"
      by (simp add: filter_map o_def)
    also have "filter (\<lambda>p. fst p \<in> set (select_dtypes_category X) \<or> fst p \<in> set l) ?xs
        = filter (\<lambda>(n, s). is_category s \<or> n \<in> set l) ?xs"
    proof (rule filter_cong[OF refl])
      fix p assume "p \<in> set ?xs"
      then have "(fst p, snd p) \<in> set ?xs" by simp
      from category_names[OF d this, of is_category]
      show "(fst p \<in> set (select_dtypes_category X) \<or> fst p \<in> set l) =
            (case p of (n, s) \<Rightarrow> is_category s \<or> n \<in> set l)"
        by (simp add: select_dtypes_category_def split_def)
    qed
    finally show ?thesis by (simp add: column_names_def)
  qed
  have exc: "filter (\<lambda>col. col \<notin> set l) (map fst (filter Q ?xs))
        = map fst (filter (\<lambda>(n, s). Q (n, s) \<and> n \<notin> set l) ?xs)" for l Q
    by (simp add: filter_map o_def split_def conj_commute)
  show ?thesis
  proof (cases "include")
    case NoneArg
    show ?thesis
    proof (cases "exclude")
      case NoneArg
      with \<open>include = NoneArg\<close> show ?thesis
        by (simp add: cat_cols_selection_def selection_contract_def select_dtypes_category_def)
    next
      case (ListArg l)
      with \<open>include = NoneArg\<close> show ?thesis
        by (simp add: cat_cols_selection_def selection_contract_def select_dtypes_category_def
            exc split_def)
    next
      case NonList
      with assms(3) show ?thesis by simp
    qed
  next
    case (ListArg i)
    show ?thesis
    proof (cases "exclude")
      case NoneArg
      with ListArg show ?thesis
        by (simp add: cat_cols_selection_def selection_contract_def inc)
    next
      case l: (ListArg l)
      have "cat_cols_selection X include exclude =
          Inr (filter (\<lambda>col. col \<notin> set l)
                (filter (\<lambda>col. col \<in> set (select_dtypes_category X) \<or> col \<in> set i)
                   (column_names X)))"
        using ListArg l by (simp add: cat_cols_selection_def del: filter_filter)
      also have "\<dots> = Inr (map fst (filter (\<lambda>(n, s). (is_category s \<or> n \<in> set i) \<and> n \<notin> set l) ?xs))"
        unfolding inc exc by (simp add: split_def)
      finally show ?thesis
        using ListArg l by (simp add: selection_contract_def)
    next
      case NonList
      with assms(3) show ?thesis by simp
    qed
  next
    case NonList
    with assms(2) show ?thesis by simp
  qed
qed

lemma selection_non_list:
  assumes "include = NonList \<or> exclude = NonList"
  shows "\<exists>msg. cat_cols_selection X include exclude = Inl (AssertionError msg)"
  using assms by (cases "include"; cases "exclude") (auto simp: cat_cols_selection_def)

lemma fit_cat_cols:
  assumes "0 < index_len X" "cat_cols_selection X (include_cols g) (exclude_cols g) = Inr cc"
  shows "cat_cols (fst (fit g X)) = Some cc"
  using assms by (simp add: fit_def Let_def split: prod.splits)

text \<open>
  Claim C8. With list or \<^verbatim>\<open>None\<close> arguments, a frame of at least one row and distinct
  column names, the columns \<^verbatim>\<open>fit\<close> selects are those of the contract, in the frame's
  order. With an include or exclude argument that is neither, \<^verbatim>\<open>fit\<close> raises an
  \<^verbatim>\<open>AssertionError\<close> and leaves the instance as it was.
\<close>

theorem column_selection_contract:
  "(include_cols g \<noteq> NonList \<and> exclude_cols g \<noteq> NonList \<and> 0 < index_len X \<and>
      distinct (column_names X) \<longrightarrow>
      cat_cols (fst (fit g X)) = Some (selection_contract X (include_cols g) (exclude_cols g))) \<and>
   (include_cols g = NonList \<or> exclude_cols g = NonList \<longrightarrow>
      (\<exists>msg. fit g X = (g, Some (AssertionError msg))))"
proof (intro conjI impI)
  assume a: "include_cols g \<noteq> NonList \<and> exclude_cols g \<noteq> NonList \<and> 0 < index_len X \<and>
      distinct (column_names X)"
  then have "cat_cols_selection X (include_cols g) (exclude_cols g) =
      Inr (selection_contract X (include_cols g) (exclude_cols g))"
    by (simp add: selection_is_contract)
  with a show "cat_cols (fst (fit g X)) =
      Some (selection_contract X (include_cols g) (exclude_cols g))"
    by (simp add: fit_cat_cols)
next
  assume "include_cols g = NonList \<or> exclude_cols g = NonList"
  from selection_non_list[OF this, of X] obtain msg where
    "cat_cols_selection X (include_cols g) (exclude_cols g) = Inl (AssertionError msg)" ..
  then show "\<exists>msg. fit g X = (g, Some (AssertionError msg))"
    by (simp add: fit_def)
qed

theorem column_selection_contract_witness:
  "cat_cols (fst (fit grouper_exclude pets_frame)) = Some [''size''] \<and>
   selection_contract pets_frame (ListArg [''size'']) (ListArg [''pet'']) = [''size''] \<and>
   (\<exists>msg. fit (grouper_exclude\<lparr>include_cols := NonList\<rparr>) pets_frame =
      (grouper_exclude\<lparr>include_cols := NonList\<rparr>, Some (AssertionError msg)))"
proof -
  have c: "selection_contract pets_frame (ListArg [''size'']) (ListArg [''pet'']) = [''size'']"
    by (simp add: selection_contract_def pets_frame_def is_category_def pet_series_def size_series_def)
  have h: "include_cols grouper_exclude \<noteq> NonList \<and> exclude_cols grouper_exclude \<noteq> NonList \<and>
      0 < index_len pets_frame \<and> distinct (column_names pets_frame)"
    by (simp add: grouper_exclude_def init_def pets_frame_def column_names_def)
  have i: "include_cols grouper_exclude = ListArg [''size'']" "exclude_cols grouper_exclude = ListArg [''pet'']"
    by (simp_all add: grouper_exclude_def init_def)
  have n: "include_cols (grouper_exclude\<lparr>include_cols := NonList\<rparr>) = NonList \<or>
      exclude_cols (grouper_exclude\<lparr>include_cols := NonList\<rparr>) = NonList" by simp
  from column_selection_contract[of grouper_exclude pets_frame] h
  have "cat_cols (fst (fit grouper_exclude pets_frame)) = Some [''size'']"
    by (simp add: i c)
  moreover from column_selection_contract[of "grouper_exclude\<lparr>include_cols := NonList\<rparr>" pets_frame] n
  have "\<exists>msg. fit (grouper_exclude\<lparr>include_cols := NonList\<rparr>) pets_frame =
      (grouper_exclude\<lparr>include_cols := NonList\<rparr>, Some (AssertionError msg))"
    by blast
  ultimately show ?thesis using c by simp
qed

lemma selection_list:
  assumes "include \<noteq> NonList" "exclude \<noteq> NonList"
  shows "\<exists>cc. cat_cols_selection X include exclude = Inr cc"
  using assms by (cases "include"; cases "exclude") (auto simp: cat_cols_selection_def)

text \<open>
  Claim C10. With a method other than \<open>freq\<close>, \<^verbatim>\<open>fit\<close> on a frame of at least one row
  returns and records the selected columns and an empty dictionary; if a column was
  selected, \<^verbatim>\<open>transform\<close> on any frame then raises \<^verbatim>\<open>KeyError\<close> for the first of them.
\<close>

theorem unknown_method:
  assumes "method g \<noteq> ''freq''" "0 < index_len X" "include_cols g \<noteq> NonList"
    "exclude_cols g \<noteq> NonList"
  shows "\<exists>cc. fit g X = (g\<lparr>cat_cols := Some cc, imp_cats := Some Map.empty\<rparr>, None) \<and>
           (cc \<noteq> [] \<longrightarrow> (\<forall>X'. transform (fst (fit g X)) X' = Inl (KeyError (hd cc))))"
proof -
  from selection_list[OF assms(3,4)] obtain cc where
    cc: "cat_cols_selection X (include_cols g) (exclude_cols g) = Inr cc" ..
  with assms(1,2) have f: "fit g X = (g\<lparr>cat_cols := Some cc, imp_cats := Some Map.empty\<rparr>, None)"
    by (simp add: fit_def)
  have "transform (fst (fit g X)) X' = Inl (KeyError (hd cc))" if "cc \<noteq> []" for X'
  proof -
    from that obtain c cs where "cc = c # cs" by (cases cc) auto
    with f show ?thesis
      by (simp add: transform_def transform_col_def split: option.splits)
  qed
  with f show ?thesis by blast
qed

theorem unknown_method_witness:
  "fit grouper_median pets_frame =
     (grouper_median\<lparr>cat_cols := Some [''pet''], imp_cats := Some Map.empty\<rparr>, None) \<and>
   transform (fst (fit grouper_median pets_frame)) pets_frame = Inl (KeyError ''pet'')"
proof -
  have h: "method grouper_median \<noteq> ''freq''" "0 < index_len pets_frame"
    "include_cols grouper_median \<noteq> NonList" "exclude_cols grouper_median \<noteq> NonList"
    by (simp_all add: grouper_median_def init_def pets_frame_def)
  have sel: "cat_cols_selection pets_frame (include_cols grouper_median) (exclude_cols grouper_median)
      = Inr [''pet'']"
    by (simp add: grouper_median_def init_def cat_cols_selection_def select_dtypes_category_def
        pets_frame_def is_category_def pet_series_def size_series_def)
  from unknown_method[OF h] obtain cc where
    cc: "fit grouper_median pets_frame =
       (grouper_median\<lparr>cat_cols := Some cc, imp_cats := Some Map.empty\<rparr>, None)"
      "cc \<noteq> [] \<longrightarrow> (\<forall>X'. transform (fst (fit grouper_median pets_frame)) X' = Inl (KeyError (hd cc)))"
    by blast
  from cc(1) h(2) sel have "cc = [''pet'']"
    by (simp add: fit_def grouper_median_def init_def)
  with cc show ?thesis by simp
qed


section \<open>When fit returns\<close>

lemma walk_returns:
  "i \<le> length fs \<Longrightarrow> tr = cumulative fs i \<Longrightarrow> \<not> flt (cumulative fs (length fs)) b \<Longrightarrow>
   \<exists>k. walk fs b tr i = Inr k"
proof (induction fs b tr i rule: walk.induct)
  case (1 fs bound tracker i)
  show ?case
  proof (cases "flt tracker bound")
    case False
    then show ?thesis by (simp add: walk.simps)
  next
    case True
    have lt: "i < length fs"
    proof (rule ccontr)
      assume "\<not> i < length fs"
      with "1.prems"(1) have "i = length fs" by simp
      with "1.prems"(2,3) True show False by simp
    qed
    have c: "fadd tracker (fs ! i) = cumulative fs (i + 1)"
      using "1.prems"(2) lt by (simp add: cumulative_Suc)
    from "1.IH"[OF True lt _ c "1.prems"(3)] lt obtain k where
      "walk fs bound (fadd tracker (fs ! i)) (i + 1) = Inr k" by auto
    with True lt show ?thesis by (simp add: walk.simps)
  qed
qed

lemma foldl_fadd_Fin: "foldl fadd (Fin a) (map Fin xs) = Fin (a + sum_list xs)"
  by (induction xs arbitrary: a) (simp_all add: add.assoc)

lemma foldl_fadd_NaN: "foldl fadd NaN xs = NaN"
  by (induction xs) simp_all

lemma foldl_fadd_all_NaN: "xs \<noteq> [] \<Longrightarrow> foldl fadd a (map (\<lambda>x. NaN) xs) = NaN"
  by (cases xs) (simp_all add: foldl_fadd_NaN)

lemma sum_list_divide:
  fixes n :: rat
  shows "sum_list (map (\<lambda>c. of_nat c / n) cs) = of_nat (sum_list cs) / n"
  by (induction cs) (simp_all add: add_divide_distrib)

lemma frequencies:
  "map snd (value_counts s) =
     map (normalize (sum_list (map snd (counts s))))
       (map snd (sort_key (\<lambda>(v, c). - int c) (counts s)))"
  by (simp add: value_counts_def Let_def split_def)

lemma sum_sorted_counts:
  "sum_list (map snd (sort_key (\<lambda>(v, c). - int c) (counts s))) = sum_list (map snd (counts s))"
  by (rule sum_list_mset_cong) simp

lemma full_share:
  assumes "count_index s \<noteq> []"
  shows "cumulative (map snd (value_counts s)) (length (map snd (value_counts s))) = NaN \<or>
         cumulative (map snd (value_counts s)) (length (map snd (value_counts s))) = Fin 1"
proof (cases "sum_list (map snd (counts s)) = 0")
  case True
  let ?sc = "map snd (sort_key (\<lambda>(v, c). - int c) (counts s))"
  have "length ?sc = length (count_index s)" by (simp add: counts_def)
  with assms have ne: "?sc \<noteq> []" by (metis length_0_conv)
  have "map snd (value_counts s) = map (\<lambda>x. NaN) ?sc"
    unfolding frequencies True by (simp add: normalize_def)
  then show ?thesis
    using ne by (simp add: cumulative_def o_def foldl_fadd_all_NaN)
next
  case False
  let ?n = "sum_list (map snd (counts s))"
  let ?sc = "map snd (sort_key (\<lambda>(v, c). - int c) (counts s))"
  have "map snd (value_counts s) = map Fin (map (\<lambda>c. of_nat c / of_nat ?n) ?sc)"
    unfolding frequencies using False by (simp add: normalize_def)
  then have "cumulative (map snd (value_counts s)) (length (map snd (value_counts s))) =
      Fin (0 + sum_list (map (\<lambda>c. of_nat c / of_nat ?n) ?sc))"
    by (simp only: cumulative_def take_all[OF order_refl] foldl_fadd_Fin)
  also have "\<dots> = Fin (of_nat ?n / of_nat ?n)"
    by (simp only: sum_list_divide sum_sorted_counts) simp
  also have "\<dots> = Fin 1" using False by simp
  finally show ?thesis by simp
qed

lemma sparse_cats_returns:
  assumes "0 \<le> t" "count_index s \<noteq> []"
  shows "\<exists>sc. sparse_cats_of s t = Inr sc"
proof -
  let ?fs = "map snd (value_counts s)"
  from full_share[OF assms(2)] assms(1) have "\<not> flt (cumulative ?fs (length ?fs)) (1 - t)"
    by auto
  from walk_returns[OF _ _ this, of 0 "Fin 0"] obtain k where
    "walk ?fs (1 - t) (Fin 0) 0 = Inr k" by (auto simp: cumulative_0)
  then show ?thesis by (simp add: sparse_cats_of_def Let_def)
qed

lemma fit_loop_returns:
  "\<forall>c \<in> set cs. \<exists>s. getitem X c = Some s \<and> count_index s \<noteq> [] \<Longrightarrow> 0 \<le> t \<Longrightarrow>
   \<exists>imp. fit_loop X t cs m = (imp, None)"
proof (induction cs arbitrary: m)
  case Nil
  then show ?case by simp
next
  case (Cons c cs)
  then obtain s where s: "getitem X c = Some s" "count_index s \<noteq> []" by auto
  from sparse_cats_returns[OF Cons.prems(2) s(2)] obtain sc where
    sc: "sparse_cats_of s t = Inr sc" ..
  have "\<forall>c \<in> set cs. \<exists>s. getitem X c = Some s \<and> count_index s \<noteq> []"
    using Cons.prems(1) by simp
  from Cons.IH[OF this Cons.prems(2), of "m(c \<mapsto> sc)"] obtain imp where
    "fit_loop X t cs (m(c \<mapsto> sc)) = (imp, None)" ..
  with s(1) sc show ?case by (simp del: fun_upd_apply)
qed

lemma selection_in_frame:
  assumes "cat_cols_selection X inc exc = Inr cc"
  shows "set cc \<subseteq> set (column_names X)"
  using assms
  by (cases inc; cases exc)
    (auto simp: cat_cols_selection_def select_dtypes_category_def column_names_def)

lemma getitem_in_frame: "c \<in> set (column_names X) \<Longrightarrow> \<exists>s. getitem X c = Some s"
proof (cases "map_of (columns X) c")
  case None
  then have "c \<notin> fst ` set (columns X)" by (simp add: map_of_eq_None_iff)
  moreover assume "c \<in> set (column_names X)"
  ultimately show ?thesis by (simp add: column_names_def)
next
  case (Some s)
  then show ?thesis by (simp add: getitem_def)
qed

text \<open>
  \<^verbatim>\<open>fit\<close> returns on every frame of at least one row whose columns each have a value to
  count (a category column: a category; another column: a cell that is not missing),
  for a threshold that is not negative. The frequencies of a column then sum to 1, or
  are all \<open>NaN\<close> for a category column without any value, and the walk stops inside the
  series.
\<close>

lemma fit_returns:
  assumes "0 < index_len X" "include_cols g \<noteq> NonList" "exclude_cols g \<noteq> NonList"
    "0 \<le> percentile_thresh g" "\<forall>c s. getitem X c = Some s \<longrightarrow> count_index s \<noteq> []"
  shows "\<exists>g'. fit g X = (g', None)"
proof -
  from selection_list[OF assms(2,3)] obtain cc where
    cc: "cat_cols_selection X (include_cols g) (exclude_cols g) = Inr cc" ..
  show ?thesis
  proof (cases "method g = ''freq''")
    case False
    with cc assms(1) show ?thesis by (simp add: fit_def)
  next
    case True
    have "\<forall>c \<in> set cc. \<exists>s. getitem X c = Some s \<and> count_index s \<noteq> []"
    proof
      fix c assume "c \<in> set cc"
      with selection_in_frame[OF cc] have "c \<in> set (column_names X)" by blast
      from getitem_in_frame[OF this] assms(5)
      show "\<exists>s. getitem X c = Some s \<and> count_index s \<noteq> []" by blast
    qed
    from fit_loop_returns[OF this assms(4), of Map.empty] obtain imp where
      "fit_loop X (percentile_thresh g) cc Map.empty = (imp, None)" ..
    with True cc assms(1) show ?thesis by (simp add: fit_def)
  qed
qed

text \<open>
  On a selected column of another dtype without any value the sorted series is empty and
  \<^verbatim>\<open>sorted_series.iloc[0]\<close> raises \<^verbatim>\<open>IndexError\<close>. \<^verbatim>\<open>fit\<close> has set both attributes by then, so
  \<^verbatim>\<open>transform\<close> on that instance raises \<^verbatim>\<open>KeyError\<close>, not the \<^verbatim>\<open>RuntimeError\<close> of an instance
  that was never fitted.
\<close>

lemma fit_raises_on_missing_column:
  "\<exists>g'. fit grouper_note missing_frame = (g', Some IndexError) \<and>
         cat_cols g' = Some [''note''] \<and> imp_cats g' = Some Map.empty \<and>
         transform g' missing_frame = Inl (KeyError ''note'')"
  by (simp add: fit_def grouper_note_def init_def missing_frame_def cat_cols_selection_def
      select_dtypes_category_def column_names_def is_category_def getitem_def
      sparse_cats_of_def value_counts_def counts_def count_index_def dropna_def unique_def
      walk.simps transform_def transform_col_def)


section \<open>The end-to-end example\<close>

lemma color_value_counts:
  assumes "color_counts cs" "distinct cats"
    "set cats = {''red'', ''blue'', ''green'', ''yellow'', ''purple''}"
  shows "value_counts (color_series cats cs) =
     [(''red'', Fin (7 / 10)), (''blue'', Fin (1 / 5)), (''green'', Fin (1 / 20)),
      (''yellow'', Fin (3 / 100)), (''purple'', Fin (1 / 50))]"
proof -
  let ?five = "[''red'', ''blue'', ''green'', ''yellow'', ''purple'']"
  let ?h = "\<lambda>v. (v, count_list (dropna cs) v)"
  let ?ys = "[(''red'', 70::nat), (''blue'', 20), (''green'', 5), (''yellow'', 3), (''purple'', 2)]"
  let ?key = "\<lambda>(v::string, c::nat). - int c"
  have cnt: "counts (color_series cats cs) = map ?h cats"
    by (simp add: counts_def count_index_def color_series_def)
  have "distinct ?five" by simp
  moreover have "set cats = set ?five" using assms(3) by auto
  ultimately have m: "mset cats = mset ?five"
    using assms(2) set_eq_iff_mset_eq_distinct by blast
  have hys: "map ?h ?five = ?ys"
    using assms(1) by (simp add: color_counts_def count_list_dropna)
  have mc: "mset (counts (color_series cats cs)) = mset ?ys"
  proof -
    have "mset (map ?h cats) = image_mset ?h (mset cats)" by simp
    also have "\<dots> = image_mset ?h (mset ?five)" by (simp only: m)
    also have "\<dots> = mset (map ?h ?five)" by simp
    finally show ?thesis by (simp only: cnt hys)
  qed
  have st: "set (counts (color_series cats cs)) = set ?ys"
    using mc by (rule mset_eq_setD)
  have inj: "inj_on ?key (set (counts (color_series cats cs)))"
    unfolding st by (simp add: inj_on_def)
  have srt: "sorted (map ?key ?ys)" by simp
  have sk: "sort_key ?key (counts (color_series cats cs)) = ?ys"
    by (rule sort_key_inj_key_eq[OF mc inj srt])
  have n: "sum_list (map snd (counts (color_series cats cs))) = 100"
    using sum_list_mset_cong[OF mc, of snd] by simp
  show ?thesis
    unfolding value_counts_def Let_def sk n
    by (simp add: normalize_def)
qed

text \<open>
  Claim C1. For every such frame, \<^verbatim>\<open>fit\<close> returns with \<open>color\<close> selected and the sparse list
  \<open>[yellow, purple]\<close>: the sorted series is red, blue, green, yellow, purple and the walk
  keeps the first three. \<^verbatim>\<open>transform\<close> then returns the frame in which every yellow or
  purple cell is \<open>Other\<close> and every other cell is as it was; the categories lose yellow
  and purple and gain \<open>Other\<close>.
\<close>

theorem end_to_end_example:
  assumes "color_counts cs" "distinct cats"
    "set cats = {''red'', ''blue'', ''green'', ''yellow'', ''purple''}"
  shows "\<exists>g. fit color_grouper (color_frame cats cs) = (g, None) \<and>
      cat_cols g = Some [''color''] \<and>
      (\<exists>imp. imp_cats g = Some imp \<and> imp ''color'' = Some [''yellow'', ''purple'']) \<and>
      map fst (value_counts (color_series cats cs)) =
         [''red'', ''blue'', ''green'', ''yellow'', ''purple''] \<and>
      is_kept_prefix (map snd (value_counts (color_series cats cs))) (1 - 5 / 100) 3 \<and>
      transform g (color_frame cats cs) =
        Inr (color_frame
               (filter (\<lambda>c. c \<noteq> ''yellow'' \<and> c \<noteq> ''purple'') cats @ [''Other''])
               (map (\<lambda>c. if c = Some ''yellow'' \<or> c = Some ''purple'' then Some ''Other'' else c) cs))"
proof -
  note vc = color_value_counts[OF assms]
  have sp: "sparse_cats_of (color_series cats cs) (1 / 20) = Inr [''yellow'', ''purple'']"
    by (simp add: sparse_cats_of_def vc walk.simps)
  have sel: "cat_cols_selection (color_frame cats cs) NoneArg NoneArg = Inr [''color'']"
    by (simp add: cat_cols_selection_def select_dtypes_category_def color_frame_def
        color_series_def is_category_def)
  have gi: "getitem (color_frame cats cs) ''color'' = Some (color_series cats cs)"
    by (simp add: getitem_def color_frame_def)
  define g where "g = color_grouper\<lparr>cat_cols := Some [''color''],
      imp_cats := Some [''color'' \<mapsto> [''yellow'', ''purple'']]\<rparr>"
  have f: "fit color_grouper (color_frame cats cs) = (g, None)"
    by (simp add: fit_def color_grouper_def init_def sel gi sp g_def)
      (simp add: color_frame_def)
  have k: "is_kept_prefix (map snd (value_counts (color_series cats cs))) (1 - 5 / 100) 3"
    by (simp add: vc is_kept_prefix_def cumulative_def less_Suc_eq numeral_3_eq_3)
  have no: "''Other'' \<notin> set cats" using assms(3) by simp
  have gc: "group_cells ''Other'' [''yellow'', ''purple''] cs =
      map (\<lambda>c. if c = Some ''yellow'' \<or> c = Some ''purple'' then Some ''Other'' else c) cs"
    by (auto simp: group_cells_def split: option.splits)
  have fl: "filter (\<lambda>c. c \<notin> set [''yellow'', ''purple'']) cats =
      filter (\<lambda>c. c \<noteq> ''yellow'' \<and> c \<noteq> ''purple'') cats"
    by (rule filter_cong) auto
  have t: "transform g (color_frame cats cs) =
        Inr (color_frame
               (filter (\<lambda>c. c \<noteq> ''yellow'' \<and> c \<noteq> ''purple'') cats @ [''Other''])
               (map (\<lambda>c. if c = Some ''yellow'' \<or> c = Some ''purple'' then Some ''Other'' else c) cs))"
    using no
    by (simp add: transform_def g_def color_grouper_def init_def transform_col_char gi)
      (simp add: color_series_def gc fl setitem_def color_frame_def)
  from f k t show ?thesis
    by (intro exI[of _ g]) (simp add: g_def vc)
qed

lemma color_rows_counts: "color_counts color_rows"
  by (simp add: color_counts_def color_rows_def count_list_replicate)

theorem end_to_end_example_witness:
  "\<exists>g. fit color_grouper (color_frame color_categories color_rows) = (g, None) \<and>
      (\<exists>imp. imp_cats g = Some imp \<and> imp ''color'' = Some [''yellow'', ''purple'']) \<and>
      transform g (color_frame color_categories color_rows) =
        Inr (color_frame [''blue'', ''green'', ''red'', ''Other'']
               (replicate 70 (Some ''red'') @ replicate 20 (Some ''blue'') @
                replicate 5 (Some ''green'') @ replicate 5 (Some ''Other'')))"
proof -
  have d: "distinct color_categories" by (simp add: color_categories_def)
  have s: "set color_categories = {''red'', ''blue'', ''green'', ''yellow'', ''purple''}"
    by (auto simp: color_categories_def)
  have m: "map (\<lambda>c. if c = Some ''yellow'' \<or> c = Some ''purple'' then Some ''Other'' else c) color_rows
      = replicate 70 (Some ''red'') @ replicate 20 (Some ''blue'') @
                replicate 5 (Some ''green'') @ replicate 5 (Some ''Other'')"
    by (simp add: color_rows_def replicate_add[symmetric] del: replicate_add)
  have c: "filter (\<lambda>c. c \<noteq> ''yellow'' \<and> c \<noteq> ''purple'') color_categories @ [''Other'']
      = [''blue'', ''green'', ''red'', ''Other'']"
    by (simp add: color_categories_def)
  from end_to_end_example[OF color_rows_counts d s] show ?thesis
    unfolding m c by blast
qed

section \<open>Transforming before fitting\<close>

lemma transform_unfitted:
  "imp_cats g = None \<or> cat_cols g = None \<Longrightarrow> transform g X = Inl (RuntimeError fitting_message)"
  by (auto simp: transform_def split: option.splits)

lemma walk_error: "walk fs b tr i = Inl e \<Longrightarrow> e = IndexError"
proof (induction fs b tr i rule: walk.induct)
  case (1 fs bound tracker i)
  show ?case
  proof (cases "flt tracker bound \<and> i < length fs")
    case True
    with "1.prems" have "walk fs bound (fadd tracker (fs ! i)) (i + 1) = Inl e"
      by (simp add: walk.simps)
    with "1.IH" True show ?thesis by simp
  next
    case False
    with "1.prems" show ?thesis by (auto simp: walk.simps split: if_splits)
  qed
qed

lemma sparse_cats_error: "sparse_cats_of s t = Inl e \<Longrightarrow> e = IndexError"
  by (auto simp: sparse_cats_of_def Let_def split: sum.splits dest: walk_error)

lemma fit_loop_error:
  "fit_loop X t cs m = (imp, Some e) \<Longrightarrow> e = IndexError \<or> (\<exists>c. e = KeyError c)"
  by (induction cs arbitrary: m) (auto split: option.splits sum.splits dest: sparse_cats_error)

text \<open>A \<^verbatim>\<open>fit\<close> that raises an \<^verbatim>\<open>AssertionError\<close> has set no attribute: the assertions come
  first, and the loop raises nothing but \<^verbatim>\<open>IndexError\<close> or \<^verbatim>\<open>KeyError\<close>.\<close>

lemma fit_assertion_leaves_instance:
  assumes "fit g X = (g', Some (AssertionError msg))"
  shows "g' = g"
proof (cases "0 < index_len X")
  case False
  with assms show ?thesis by (simp add: fit_def)
next
  case True
  show ?thesis
  proof (cases "cat_cols_selection X (include_cols g) (exclude_cols g)")
    case (Inl e)
    with True assms show ?thesis by (simp add: fit_def)
  next
    case (Inr cc)
    show ?thesis
    proof (cases "method g = ''freq''")
      case False
      with True Inr assms show ?thesis by (simp add: fit_def)
    next
      case freq: True
      obtain imp err where l: "fit_loop X (percentile_thresh g) cc Map.empty = (imp, err)"
        by (cases "fit_loop X (percentile_thresh g) cc Map.empty")
      with True Inr freq assms have "err = Some (AssertionError msg)" by (simp add: fit_def)
      with l fit_loop_error[of X "percentile_thresh g" cc Map.empty imp "AssertionError msg"]
      show ?thesis by simp
    qed
  qed
qed

lemma transform_after_rejected_fit:
  assumes "fit (init m t n inc exc) X0 = (g', Some (AssertionError msg))"
  shows "transform g' X = Inl (RuntimeError fitting_message)"
  using fit_assertion_leaves_instance[OF assms]
  by (simp add: transform_def init_def)


end
